theory Spec2Isabelle
  imports Main "HOL-Library.Word"
begin

section \<open>Session state machine and route guards of \<open>src/App.tsx\<close>\<close>

subsection \<open>JavaScript values\<close>

text \<open>
  A JavaScript string is a sequence of 16-bit code units. String literals of the source
  are written with \<open>js\<close>, which maps every character of an Isabelle literal to its code unit.
\<close>

type_synonym jschar = "16 word"
type_synonym jsstring = "jschar list"

definition js :: "string \<Rightarrow> jsstring" where
  "js s = map of_char s"

text \<open>
  The values \<open>JSON.parse\<close> can return. \<open>JNull\<close> is the JavaScript \<open>null\<close>. A number
  keeps the text of its literal (the model never computes with numbers, and two spellings
  of one number are two values here); an object is the list of its own properties in
  creation order (JavaScript enumerates integer-like names first; nothing below depends
  on the order of names other than \<open>id\<close>, \<open>email\<close>, \<open>name\<close> and \<open>avatar\<close>).
\<close>

datatype json =
    JNull
  | JBool bool
  | JNumber jsstring
  | JString jsstring
  | JArray "json list"
  | JObject "(jsstring \<times> json) list"

subsection \<open>\<open>JSON.parse\<close>\<close>

text \<open>
  The JSON grammar as \<open>JSON.parse\<close> reads it: white space is space, tab, line feed and
  carriage return; a value is an object, an array, a string, a number or one of \<open>true\<close>,
  \<open>false\<close>, \<open>null\<close>. Every parser takes the remaining input and returns its result
  with the input left over, or \<open>None\<close> where \<open>JSON.parse\<close> throws \<open>SyntaxError\<close>.
\<close>

definition is_ws :: "jschar \<Rightarrow> bool" where
  "is_ws c \<longleftrightarrow> c = 0x20 \<or> c = 0x09 \<or> c = 0x0A \<or> c = 0x0D"

definition is_digit :: "jschar \<Rightarrow> bool" where
  "is_digit c \<longleftrightarrow> 0x30 \<le> c \<and> c \<le> 0x39"

text \<open>
  Strings. \<open>parse_chars\<close> reads the characters after the opening quote up to the closing
  one. A code unit below \<open>0x20\<close> is refused; a backslash starts one of the two-character
  escapes (quote, backslash, slash, \<open>b\<close>, \<open>f\<close>, \<open>n\<close>, \<open>r\<close>, \<open>t\<close>) or \<open>u\<close> with four
  hexadecimal digits.
\<close>

definition hexval :: "jschar \<Rightarrow> nat option" where
  "hexval c =
     (if 0x30 \<le> c \<and> c \<le> 0x39 then Some (unat c - 48)
      else if 0x41 \<le> c \<and> c \<le> 0x46 then Some (unat c - 55)
      else if 0x61 \<le> c \<and> c \<le> 0x66 then Some (unat c - 87)
      else None)"

definition hex4 :: "jschar \<Rightarrow> jschar \<Rightarrow> jschar \<Rightarrow> jschar \<Rightarrow> jschar option" where
  "hex4 a b c d =
     (case (hexval a, hexval b, hexval c, hexval d) of
        (Some w, Some x, Some y, Some z) \<Rightarrow> Some (of_nat (((w * 16 + x) * 16 + y) * 16 + z))
      | _ \<Rightarrow> None)"

definition unescape :: "jschar \<Rightarrow> jschar option" where
  "unescape e =
     (if e = 0x22 then Some 0x22
      else if e = 0x5C then Some 0x5C
      else if e = 0x2F then Some 0x2F
      else if e = 0x62 then Some 0x08
      else if e = 0x66 then Some 0x0C
      else if e = 0x6E then Some 0x0A
      else if e = 0x72 then Some 0x0D
      else if e = 0x74 then Some 0x09
      else None)"

definition cons_result :: "jschar \<Rightarrow> (jsstring \<times> jsstring) option \<Rightarrow> (jsstring \<times> jsstring) option" where
  "cons_result u res = (case res of None \<Rightarrow> None | Some (s, r) \<Rightarrow> Some (u # s, r))"

fun parse_chars :: "jsstring \<Rightarrow> (jsstring \<times> jsstring) option" where
  "parse_chars [] = None"
| "parse_chars (c # cs) =
     (if c = 0x22 then Some ([], cs)
      else if c = 0x5C then
        (case cs of
           [] \<Rightarrow> None
         | e # cs' \<Rightarrow>
             if e = 0x75 then
               (case cs' of
                  h1 # h2 # h3 # h4 # cs'' \<Rightarrow>
                    (case hex4 h1 h2 h3 h4 of
                       None \<Rightarrow> None
                     | Some u \<Rightarrow> cons_result u (parse_chars cs''))
                | _ \<Rightarrow> None)
             else
               (case unescape e of
                  None \<Rightarrow> None
                | Some u \<Rightarrow> cons_result u (parse_chars cs')))
      else if c < 0x20 then None
      else cons_result c (parse_chars cs))"

text \<open>A string that was read leaves less input than it was given.\<close>

lemma cons_result_shorter:
  "cons_result u res = Some (s, r) \<Longrightarrow> \<exists>s'. res = Some (s', r)"
  by (auto simp: cons_result_def split: option.splits)

lemma parse_chars_shorter: "parse_chars cs = Some (s, r) \<Longrightarrow> length r < length cs"
proof (induction cs arbitrary: s rule: parse_chars.induct)
  case 1
  then show ?case by simp
next
  case (2 c cs)
  then show ?case
    by (fastforce simp: less_Suc_eq dest!: cons_result_shorter split: if_splits list.splits option.splits)
qed

text \<open>
  Numbers: an optional minus, an integer part without a leading zero, an optional fraction
  and an optional exponent. The result is the text of the literal.
\<close>

definition take_digits :: "jsstring \<Rightarrow> (jsstring \<times> jsstring) option" where
  "take_digits cs =
     (if takeWhile is_digit cs = [] then None
      else Some (takeWhile is_digit cs, dropWhile is_digit cs))"

definition parse_int :: "jsstring \<Rightarrow> (jsstring \<times> jsstring) option" where
  "parse_int cs =
     (case cs of
        [] \<Rightarrow> None
      | d # r \<Rightarrow>
          if d = 0x30 then Some ([d], r)
          else take_digits cs)"

definition parse_frac :: "jsstring \<Rightarrow> (jsstring \<times> jsstring) option" where
  "parse_frac cs =
     (case cs of
        [] \<Rightarrow> Some ([], cs)
      | p # r \<Rightarrow>
          if p = 0x2E then
            (case take_digits r of None \<Rightarrow> None | Some (ds, r') \<Rightarrow> Some (p # ds, r'))
          else Some ([], cs))"

definition parse_sign :: "jsstring \<Rightarrow> jsstring \<times> jsstring" where
  "parse_sign cs =
     (case cs of
        [] \<Rightarrow> ([], cs)
      | s # r \<Rightarrow> if s = 0x2B \<or> s = 0x2D then ([s], r) else ([], cs))"

definition parse_exp :: "jsstring \<Rightarrow> (jsstring \<times> jsstring) option" where
  "parse_exp cs =
     (case cs of
        [] \<Rightarrow> Some ([], cs)
      | e # r \<Rightarrow>
          if e = 0x65 \<or> e = 0x45 then
            (case take_digits (snd (parse_sign r)) of
               None \<Rightarrow> None
             | Some (ds, r') \<Rightarrow> Some (e # fst (parse_sign r) @ ds, r'))
          else Some ([], cs))"

definition parse_number :: "jsstring \<Rightarrow> (jsstring \<times> jsstring) option" where
  "parse_number cs =
     (let (m, cs0) = (case cs of [] \<Rightarrow> ([], cs) | s # r \<Rightarrow> if s = 0x2D then ([s], r) else ([], cs)) in
      case parse_int cs0 of None \<Rightarrow> None | Some (ip, cs1) \<Rightarrow>
      (case parse_frac cs1 of None \<Rightarrow> None | Some (fp, cs2) \<Rightarrow>
      (case parse_exp cs2 of None \<Rightarrow> None | Some (ep, cs3) \<Rightarrow>
        Some (m @ ip @ fp @ ep, cs3))))"

text \<open>
  \<open>strip_prefix\<close> reads a literal name. \<open>obj_put\<close> defines a property of the object
  under construction: a name that is already there keeps its place and takes the new
  value, as a repeated name does in \<open>JSON.parse\<close>.
\<close>

definition strip_prefix :: "jsstring \<Rightarrow> jsstring \<Rightarrow> jsstring option" where
  "strip_prefix p cs = (if take (length p) cs = p then Some (drop (length p) cs) else None)"

fun obj_put :: "jsstring \<Rightarrow> json \<Rightarrow> (jsstring \<times> json) list \<Rightarrow> (jsstring \<times> json) list" where
  "obj_put k v [] = [(k, v)]"
| "obj_put k v ((k', v') # ms) = (if k' = k then (k, v) # ms else (k', v') # obj_put k v ms)"

lemma dropWhile_Cons_shorter: "dropWhile P xs = y # ys \<Longrightarrow> length ys < length xs"
  using length_dropWhile_le [of P xs] by simp

text \<open>
  Values, array elements and object members. \<open>parse_elements\<close> and \<open>parse_members\<close>
  start at the first element or member and carry what they have read so far. The tests
  \<open>length r < length cs\<close> and \<open>length r3 < length cs\<close> are there for the termination proof
  alone: \<open>parse_shorter\<close> below shows that they always hold, and
  \<open>parse_elements_unguarded\<close> and \<open>parse_members_unguarded\<close> state the functions
  without them.
\<close>

function parse_value :: "jsstring \<Rightarrow> (json \<times> jsstring) option"
  and parse_elements :: "json list \<Rightarrow> jsstring \<Rightarrow> (json \<times> jsstring) option"
  and parse_members :: "(jsstring \<times> json) list \<Rightarrow> jsstring \<Rightarrow> (json \<times> jsstring) option"
where
  "parse_value cs =
     (case dropWhile is_ws cs of
        [] \<Rightarrow> None
      | c # r \<Rightarrow>
          if c = 0x7B then
            (case dropWhile is_ws r of
               [] \<Rightarrow> None
             | d # r' \<Rightarrow> if d = 0x7D then Some (JObject [], r') else parse_members [] (d # r'))
          else if c = 0x5B then
            (case dropWhile is_ws r of
               [] \<Rightarrow> None
             | d # r' \<Rightarrow> if d = 0x5D then Some (JArray [], r') else parse_elements [] (d # r'))
          else if c = 0x22 then
            (case parse_chars r of None \<Rightarrow> None | Some (s, r') \<Rightarrow> Some (JString s, r'))
          else if c = 0x2D \<or> is_digit c then
            (case parse_number (c # r) of None \<Rightarrow> None | Some (n, r') \<Rightarrow> Some (JNumber n, r'))
          else if c = 0x74 then
            (case strip_prefix (js ''true'') (c # r) of None \<Rightarrow> None | Some r' \<Rightarrow> Some (JBool True, r'))
          else if c = 0x66 then
            (case strip_prefix (js ''false'') (c # r) of None \<Rightarrow> None | Some r' \<Rightarrow> Some (JBool False, r'))
          else if c = 0x6E then
            (case strip_prefix (js ''null'') (c # r) of None \<Rightarrow> None | Some r' \<Rightarrow> Some (JNull, r'))
          else None)"
| "parse_elements acc cs =
     (case parse_value cs of
        None \<Rightarrow> None
      | Some (v, r) \<Rightarrow>
          if length r < length cs then
            (case dropWhile is_ws r of
               [] \<Rightarrow> None
             | d # r' \<Rightarrow>
                 if d = 0x2C then parse_elements (acc @ [v]) r'
                 else if d = 0x5D then Some (JArray (acc @ [v]), r')
                 else None)
          else None)"
| "parse_members acc cs =
     (case dropWhile is_ws cs of
        [] \<Rightarrow> None
      | q # r \<Rightarrow>
          if q = 0x22 then
            (case parse_chars r of
               None \<Rightarrow> None
             | Some (k, r1) \<Rightarrow>
                 (case dropWhile is_ws r1 of
                    [] \<Rightarrow> None
                  | col # r2 \<Rightarrow>
                      if col = 0x3A then
                        (case parse_value r2 of
                           None \<Rightarrow> None
                         | Some (v, r3) \<Rightarrow>
                             if length r3 < length cs then
                               (case dropWhile is_ws r3 of
                                  [] \<Rightarrow> None
                                | d # r' \<Rightarrow>
                                    if d = 0x2C then parse_members (obj_put k v acc) r'
                                    else if d = 0x7D then Some (JObject (obj_put k v acc), r')
                                    else None)
                             else None)
                      else None))
          else None)"
  by pat_completeness auto

termination
  apply (relation "measure (\<lambda>x. case x of
      Inl cs \<Rightarrow> 2 * length cs
    | Inr (Inl (acc, cs)) \<Rightarrow> 2 * length cs + 1
    | Inr (Inr (acc, cs)) \<Rightarrow> 2 * length cs + 1)")
  apply (auto dest!: dropWhile_Cons_shorter parse_chars_shorter)
  done

declare parse_value.simps [simp del] parse_elements.simps [simp del] parse_members.simps [simp del]

text \<open>The whole text is one value, with white space around it and nothing else.\<close>

definition JSON_parse :: "jsstring \<Rightarrow> json option" where
  "JSON_parse text =
     (case parse_value text of
        None \<Rightarrow> None
      | Some (v, r) \<Rightarrow> if dropWhile is_ws r = [] then Some v else None)"

subsection \<open>\<open>JSON.stringify\<close>\<close>

text \<open>
  \<open>QuoteJSONString\<close> escapes the quote, the backslash and the control characters (the
  short escapes where there is one, \<open>\u\<close> and four lower-case hexadecimal digits
  otherwise) and every surrogate that is not part of a pair. A number is printed as the
  text it was read from.
\<close>

definition is_high_surrogate :: "jschar \<Rightarrow> bool" where
  "is_high_surrogate c \<longleftrightarrow> 0xD800 \<le> c \<and> c \<le> 0xDBFF"

definition is_low_surrogate :: "jschar \<Rightarrow> bool" where
  "is_low_surrogate c \<longleftrightarrow> 0xDC00 \<le> c \<and> c \<le> 0xDFFF"

definition hexdigit :: "nat \<Rightarrow> jschar" where
  "hexdigit n = (if n < 10 then of_nat (48 + n) else of_nat (87 + n))"

definition UnicodeEscape :: "jschar \<Rightarrow> jsstring" where
  "UnicodeEscape c =
     [0x5C, 0x75,
      hexdigit (unat c div 4096), hexdigit (unat c div 256 mod 16),
      hexdigit (unat c div 16 mod 16), hexdigit (unat c mod 16)]"

fun quote_chars :: "jsstring \<Rightarrow> jsstring" where
  "quote_chars [] = []"
| "quote_chars (c # cs) =
     (if c = 0x08 then [0x5C, 0x62] @ quote_chars cs
      else if c = 0x09 then [0x5C, 0x74] @ quote_chars cs
      else if c = 0x0A then [0x5C, 0x6E] @ quote_chars cs
      else if c = 0x0C then [0x5C, 0x66] @ quote_chars cs
      else if c = 0x0D then [0x5C, 0x72] @ quote_chars cs
      else if c = 0x22 then [0x5C, 0x22] @ quote_chars cs
      else if c = 0x5C then [0x5C, 0x5C] @ quote_chars cs
      else if c < 0x20 then UnicodeEscape c @ quote_chars cs
      else if is_high_surrogate c then
        (case cs of
           [] \<Rightarrow> UnicodeEscape c
         | d # ds \<Rightarrow>
             if is_low_surrogate d then c # d # quote_chars ds
             else UnicodeEscape c @ quote_chars cs)
      else if is_low_surrogate c then UnicodeEscape c @ quote_chars cs
      else c # quote_chars cs)"

definition QuoteJSONString :: "jsstring \<Rightarrow> jsstring" where
  "QuoteJSONString s = [0x22] @ quote_chars s @ [0x22]"

fun join :: "jsstring \<Rightarrow> jsstring list \<Rightarrow> jsstring" where
  "join sep [] = []"
| "join sep [x] = x"
| "join sep (x # y # ys) = x @ sep @ join sep (y # ys)"

fun JSON_stringify :: "json \<Rightarrow> jsstring" where
  "JSON_stringify JNull = js ''null''"
| "JSON_stringify (JBool b) = (if b then js ''true'' else js ''false'')"
| "JSON_stringify (JNumber n) = n"
| "JSON_stringify (JString s) = QuoteJSONString s"
| "JSON_stringify (JArray vs) = [0x5B] @ join [0x2C] (map JSON_stringify vs) @ [0x5D]"
| "JSON_stringify (JObject ms) =
     [0x7B] @ join [0x2C] (map (\<lambda>(k, v). QuoteJSONString k @ [0x3A] @ JSON_stringify v) ms) @ [0x7D]"

subsection \<open>Session state and actions\<close>

text \<open>
  Modelled from the spec: the declarations of \<open>AuthState\<close> and \<open>AuthAction\<close> live in
  \<open>types.ts\<close>, which is not among the sources; the fields are those the reducer and the
  provider read and write, the actions are the four tags the reducer matches.
  The field \<open>user\<close> holds whatever value was dispatched as payload (the result of
  \<open>JSON.parse\<close> at bootstrap), so its type is \<open>json\<close>, with \<open>JNull\<close> for \<open>null\<close>.
  \<open>OTHER\<close> stands for an action with any other tag: the reducer's \<open>default\<close> branch.
\<close>

record AuthState =
  user :: json
  isAuthenticated :: bool
  isLoading :: bool
  error :: "jsstring option"

datatype AuthAction =
    LOGIN_START
  | LOGIN_SUCCESS json
  | LOGIN_FAILURE jsstring
  | LOGOUT
  | OTHER

text \<open>
  Modelled from the spec: the type \<open>User\<close> is declared in \<open>types.ts\<close>, which is not among
  the sources. It is the object literal that \<open>login\<close> builds: the properties \<open>id\<close>,
  \<open>email\<close>, \<open>name\<close> and \<open>avatar\<close>, in this order, all of them strings.
\<close>

definition User :: "jsstring \<Rightarrow> jsstring \<Rightarrow> jsstring \<Rightarrow> jsstring \<Rightarrow> json" where
  "User i e n a =
     JObject [(js ''id'', JString i), (js ''email'', JString e), (js ''name'', JString n),
              (js ''avatar'', JString a)]"

text \<open>The reducer, one equation for each \<open>case\<close> of its \<open>switch\<close>.\<close>

fun authReducer :: "AuthState \<Rightarrow> AuthAction \<Rightarrow> AuthState" where
  "authReducer state LOGIN_START = state\<lparr>isLoading := True, error := None\<rparr>"
| "authReducer state (LOGIN_SUCCESS payload) =
     state\<lparr>isLoading := False, isAuthenticated := True, user := payload\<rparr>"
| "authReducer state (LOGIN_FAILURE payload) =
     state\<lparr>isLoading := False, error := Some payload\<rparr>"
| "authReducer state LOGOUT = state\<lparr>isAuthenticated := False, user := JNull\<rparr>"
| "authReducer state OTHER = state"

text \<open>The initial state handed to \<open>useReducer\<close>.\<close>

definition initialState :: AuthState where
  "initialState = \<lparr>user = JNull, isAuthenticated = False, isLoading = True, error = None\<rparr>"

subsection \<open>The persistent session store\<close>

text \<open>
  \<open>localStorage\<close> maps keys to string values. \<open>getItem\<close> returns \<open>null\<close> (here \<open>None\<close>)
  for a missing key, \<open>removeItem\<close> deletes the key, and \<open>setItem\<close> either stores the value
  or throws \<open>QuotaExceededError\<close> and leaves the storage as it was. Whether a write is
  refused is decided by the browser (quota, private mode), so it is an input of the model.
\<close>

type_synonym Storage = "jsstring \<rightharpoonup> jsstring"

datatype exn = QuotaExceededError

definition getItem :: "Storage \<Rightarrow> jsstring \<Rightarrow> jsstring option" where
  "getItem ls key = ls key"

definition removeItem :: "Storage \<Rightarrow> jsstring \<Rightarrow> Storage" where
  "removeItem ls key = ls(key := None)"

definition setItem :: "bool \<Rightarrow> Storage \<Rightarrow> jsstring \<Rightarrow> jsstring \<Rightarrow> exn + Storage" where
  "setItem refused ls key v = (if refused then Inl QuotaExceededError else Inr (ls(key \<mapsto> v)))"

definition AUTH_USER :: jsstring where
  "AUTH_USER = js ''auth_user''"

subsection \<open>The session controller (\<open>AuthProvider\<close>)\<close>

text \<open>
  The provider owns the reducer state and reads and writes \<open>localStorage\<close>; the model
  passes both along. \<open>dispatch\<close> applies the reducer to the current state.
\<close>

record world =
  state :: AuthState
  localStorage :: Storage

definition dispatch :: "AuthAction \<Rightarrow> world \<Rightarrow> world" where
  "dispatch action w = w\<lparr>state := authReducer (state w) action\<rparr>"

text \<open>
  The effect that \<open>AuthProvider\<close> runs once after mounting (the spec's \<open>bootstrap()\<close>).
  \<open>if (savedUser)\<close> is false for \<open>null\<close> and for the empty string. A \<open>JSON.parse\<close> that
  throws is caught: the key is removed and \<open>LOGOUT\<close> is dispatched.
\<close>

definition bootstrap :: "world \<Rightarrow> world" where
  "bootstrap w =
     (case getItem (localStorage w) AUTH_USER of
        None \<Rightarrow> dispatch LOGOUT w
      | Some savedUser \<Rightarrow>
          if savedUser = [] then dispatch LOGOUT w
          else
            (case JSON_parse savedUser of
               Some payload \<Rightarrow> dispatch (LOGIN_SUCCESS payload) w
             | None \<Rightarrow>
                 dispatch LOGOUT (w\<lparr>localStorage := removeItem (localStorage w) AUTH_USER\<rparr>)))"

text \<open>
  What one call of \<open>login\<close> gets from its environment: the text of
  \<open>Math.random().toString(36)\<close>, and whether the browser refuses the write to
  \<open>localStorage\<close>.
\<close>

record login_env =
  random36 :: jsstring
  quota_exceeded :: bool

definition substr :: "nat \<Rightarrow> nat \<Rightarrow> jsstring \<Rightarrow> jsstring" where
  "substr start len s = take len (drop start s)"

definition new_user :: "login_env \<Rightarrow> jsstring \<Rightarrow> jsstring \<Rightarrow> json" where
  "new_user env email name =
     User (substr 2 9 (random36 env)) email name
       (js ''https://api.dicebear.com/7.x/avataaars/svg?seed='' @ name)"

definition LOGIN_FAILED_MESSAGE :: jsstring where
  "LOGIN_FAILED_MESSAGE = js ''Authentication failed. Please try again.''"

text \<open>
  \<open>login\<close> runs from its first dispatch to its last without another operation in between
  (the 800 ms timer always resolves and nothing else is modelled as running meanwhile).
  The only statement of its \<open>try\<close> block that can throw is \<open>localStorage.setItem\<close>.
\<close>

definition login :: "login_env \<Rightarrow> jsstring \<Rightarrow> jsstring \<Rightarrow> world \<Rightarrow> world" where
  "login env email name w =
     (let w1 = dispatch LOGIN_START w;
          u = new_user env email name
      in case setItem (quota_exceeded env) (localStorage w1) AUTH_USER (JSON_stringify u) of
           Inr ls \<Rightarrow> dispatch (LOGIN_SUCCESS u) (w1\<lparr>localStorage := ls\<rparr>)
         | Inl err \<Rightarrow> dispatch (LOGIN_FAILURE LOGIN_FAILED_MESSAGE) w1)"

definition logout :: "world \<Rightarrow> world" where
  "logout w = dispatch LOGOUT (w\<lparr>localStorage := removeItem (localStorage w) AUTH_USER\<rparr>)"

text \<open>The process starts with the initial reducer state and whatever the storage holds.\<close>

definition start :: "Storage \<Rightarrow> world" where
  "start ls = \<lparr>state = initialState, localStorage = ls\<rparr>"

datatype operation =
    Bootstrap
  | Login login_env jsstring jsstring
  | Logout

fun exec :: "operation \<Rightarrow> world \<Rightarrow> world" where
  "exec Bootstrap w = bootstrap w"
| "exec (Login env email name) w = login env email name w"
| "exec Logout w = logout w"

fun run :: "operation list \<Rightarrow> world \<Rightarrow> world" where
  "run [] w = w"
| "run (op # ops) w = run ops (exec op w)"


subsection \<open>Route guards\<close>

text \<open>
  What a guard returns: the spinner (\<open>Initializing Core...\<close>), nothing (\<open>null\<close>), its
  children, or a \<open>Navigate\<close> element with its target and its \<open>replace\<close> flag.
\<close>

datatype element =
    Spinner
  | Nothing
  | Children
  | Navigate jsstring bool

definition ProtectedRoute :: "AuthState \<Rightarrow> element" where
  "ProtectedRoute ctx =
     (if isLoading ctx then Spinner
      else if isAuthenticated ctx then Children
      else Navigate (js ''/login'') True)"

definition PublicRoute :: "AuthState \<Rightarrow> element" where
  "PublicRoute ctx =
     (if isLoading ctx then Nothing
      else if \<not> isAuthenticated ctx then Children
      else Navigate (js ''/dashboard'') True)"

subsection \<open>Predicates used to state the properties\<close>

text \<open>Whether the value under \<open>auth_user\<close> is a JSON text for \<open>null\<close>.\<close>

definition stores_null :: "Storage \<Rightarrow> bool" where
  "stores_null ls =
     (case ls AUTH_USER of None \<Rightarrow> False | Some text \<Rightarrow> JSON_parse text = Some JNull)"

text \<open>
  Modelled from the spec: the identity record shape \<open>{id, email, name, avatar}\<close>, all
  strings (the type \<open>User\<close> of \<open>types.ts\<close>, which is not among the sources).
\<close>

fun field :: "jsstring \<Rightarrow> (jsstring \<times> json) list \<Rightarrow> json option" where
  "field k [] = None"
| "field k ((k', v) # ms) = (if k' = k then Some v else field k ms)"

definition is_string :: "json option \<Rightarrow> bool" where
  "is_string v = (case v of Some (JString s) \<Rightarrow> True | _ \<Rightarrow> False)"

definition matches_User :: "json \<Rightarrow> bool" where
  "matches_User v =
     (case v of
        JObject ms \<Rightarrow>
          is_string (field (js ''id'') ms) \<and> is_string (field (js ''email'') ms) \<and>
          is_string (field (js ''name'') ms) \<and> is_string (field (js ''avatar'') ms)
      | _ \<Rightarrow> False)"

section \<open>Properties\<close>

subsection \<open>Every parser consumes input\<close>

lemma take_digits_shorter: "take_digits cs = Some (ds, r) \<Longrightarrow> length r < length cs"
proof -
  assume a: "take_digits cs = Some (ds, r)"
  then have "ds \<noteq> []" "ds @ r = cs"
    by (auto simp: take_digits_def split: if_splits)
  then have "length cs = length ds + length r" "length ds > 0" by auto
  then show ?thesis by simp
qed

lemma take_digits_le: "take_digits cs = Some (ds, r) \<Longrightarrow> length r \<le> length cs"
  using take_digits_shorter by fastforce

lemma parse_int_shorter: "parse_int cs = Some (ds, r) \<Longrightarrow> length r < length cs"
  by (auto simp: parse_int_def split: list.splits if_splits dest: take_digits_shorter)

lemma parse_frac_le: "parse_frac cs = Some (ds, r) \<Longrightarrow> length r \<le> length cs"
  by (auto simp: parse_frac_def split: list.splits if_splits option.splits dest!: take_digits_le)

lemma parse_sign_le: "length (snd (parse_sign cs)) \<le> length cs"
  by (auto simp: parse_sign_def split: list.splits)

lemma parse_exp_le: "parse_exp cs = Some (ds, r) \<Longrightarrow> length r \<le> length cs"
proof (cases cs)
  case Nil
  assume "parse_exp cs = Some (ds, r)"
  with Nil show ?thesis by (simp add: parse_exp_def)
next
  case (Cons e t)
  assume a: "parse_exp cs = Some (ds, r)"
  show ?thesis
  proof (cases "e = 0x65 \<or> e = 0x45")
    case True
    with a Cons obtain ds' where "take_digits (snd (parse_sign t)) = Some (ds', r)"
      by (auto simp: parse_exp_def split: option.splits)
    then have "length r \<le> length (snd (parse_sign t))" by (rule take_digits_le)
    also have "\<dots> \<le> length t" by (rule parse_sign_le)
    finally show ?thesis using Cons by simp
  next
    case False
    with a Cons show ?thesis by (auto simp: parse_exp_def)
  qed
qed

lemma parse_number_shorter: "parse_number cs = Some (n, r) \<Longrightarrow> length r < length cs"
proof -
  assume a: "parse_number cs = Some (n, r)"
  obtain m cs0 where m: "(case cs of [] \<Rightarrow> ([], cs) | s # t \<Rightarrow> if s = 0x2D then ([s], t) else ([], cs)) = (m, cs0)"
    by fastforce
  then have l0: "length cs0 \<le> length cs"
    by (auto split: list.splits if_splits)
  from a m obtain ip cs1 fp cs2 ep where
    "parse_int cs0 = Some (ip, cs1)" "parse_frac cs1 = Some (fp, cs2)" "parse_exp cs2 = Some (ep, r)"
    by (auto simp: parse_number_def split: option.splits)
  then have "length cs1 < length cs0" "length cs2 \<le> length cs1" "length r \<le> length cs2"
    by (auto dest: parse_int_shorter parse_frac_le parse_exp_le)
  with l0 show ?thesis by simp
qed

lemma strip_prefix_shorter: "strip_prefix p cs = Some r \<Longrightarrow> p \<noteq> [] \<Longrightarrow> length r < length cs"
  by (cases cs) (auto simp: strip_prefix_def split: if_splits)

lemma js_nonempty: "js (c # s) \<noteq> []"
  by (simp add: js_def)

lemma parse_shorter:
  "parse_value cs = Some (v, r) \<Longrightarrow> length r < length cs"
  "parse_elements acc cs = Some (v, r) \<Longrightarrow> length r < length cs"
  "parse_members macc cs = Some (v, r) \<Longrightarrow> length r < length cs"
proof (induction cs and acc cs and macc cs arbitrary: v r and v r and v r
    rule: parse_value_parse_elements_parse_members.induct)
  case (1 cs)
  from "1.prems" obtain c t where d: "dropWhile is_ws cs = c # t"
    by (subst (asm) parse_value.simps) (auto split: list.splits)
  then have t: "length t < length cs" by (rule dropWhile_Cons_shorter)
  have le: "length x < length cs" if "dropWhile is_ws t = y # x" for x y
    using dropWhile_Cons_shorter [OF that] t by simp
  have le': "length (y # x) < length cs" if "dropWhile is_ws t = y # x" for x y
    using length_dropWhile_le [of is_ws t] that t by simp
  have num: "length x < length cs" if "parse_number (k # t) = Some (n, x)" for k n x
    using parse_number_shorter [OF that] t by simp
  have str: "length x < length cs" if "parse_chars t = Some (n, x)" for n x
    using parse_chars_shorter [OF that] t by simp
  have lit: "length x < length cs" if "strip_prefix (js (a # p)) (k # t) = Some x" for a p k x
    using strip_prefix_shorter [OF that js_nonempty] t by simp
  consider (obj) "c = 0x7B" | (arr) "c \<noteq> 0x7B" "c = 0x5B" | (other) "c \<noteq> 0x7B" "c \<noteq> 0x5B"
    by blast
  then show ?case
  proof cases
    case obj
    show ?thesis
    proof (cases "dropWhile is_ws t")
      case Nil
      with "1.prems" d obj show ?thesis
        by (subst (asm) parse_value.simps) simp
    next
      case (Cons y x)
      show ?thesis
      proof (cases "y = 0x7D")
        case True
        with "1.prems" d obj Cons le [OF Cons] show ?thesis
          by (subst (asm) parse_value.simps) simp
      next
        case False
        with "1.prems" d obj Cons have "parse_members [] (y # x) = Some (v, r)"
          by (subst (asm) parse_value.simps) simp
        from "1.IH"(1) [OF d obj Cons False this] le' [OF Cons] show ?thesis
          by simp
      qed
    qed
  next
    case arr
    show ?thesis
    proof (cases "dropWhile is_ws t")
      case Nil
      with "1.prems" d arr show ?thesis
        by (subst (asm) parse_value.simps) simp
    next
      case (Cons y x)
      show ?thesis
      proof (cases "y = 0x5D")
        case True
        with "1.prems" d arr Cons le [OF Cons] show ?thesis
          by (subst (asm) parse_value.simps) simp
      next
        case False
        with "1.prems" d arr Cons have "parse_elements [] (y # x) = Some (v, r)"
          by (subst (asm) parse_value.simps) simp
        from "1.IH"(2) [OF d arr(1) arr(2) Cons False this] le' [OF Cons] show ?thesis
          by simp
      qed
    qed
  next
    case other
    with "1.prems" d show ?thesis
      by (subst (asm) parse_value.simps)
         (auto split: if_splits option.splits dest: num str lit)
  qed
next
  case (2 acc cs)
  from "2.prems" obtain v1 r1 d r' where
    pv: "parse_value cs = Some (v1, r1)" and g: "length r1 < length cs"
    and dw: "dropWhile is_ws r1 = d # r'"
    and alt: "d = 0x2C \<and> parse_elements (acc @ [v1]) r' = Some (v, r) \<or> d = 0x5D \<and> r = r'"
    by (subst (asm) parse_elements.simps)
       (auto split: option.splits if_splits list.splits)
  have r': "length r' < length r1" using dw by (rule dropWhile_Cons_shorter)
  from alt show ?case
  proof
    assume a: "d = 0x2C \<and> parse_elements (acc @ [v1]) r' = Some (v, r)"
    have "length r < length r'"
      using "2.IH"(2) pv g dw a by fastforce
    with r' g show ?thesis by simp
  next
    assume "d = 0x5D \<and> r = r'"
    with r' g show ?thesis by simp
  qed
next
  case (3 macc cs)
  from "3.prems" obtain q t k r1 col r2 v1 r3 d r' where
    d0: "dropWhile is_ws cs = q # t" and q: "q = 0x22"
    and pc: "parse_chars t = Some (k, r1)"
    and d1: "dropWhile is_ws r1 = col # r2" and col: "col = 0x3A"
    and pv: "parse_value r2 = Some (v1, r3)" and g: "length r3 < length cs"
    and dw: "dropWhile is_ws r3 = d # r'"
    and alt: "d = 0x2C \<and> parse_members (obj_put k v1 macc) r' = Some (v, r) \<or> d = 0x7D \<and> r = r'"
    by (subst (asm) parse_members.simps)
       (auto split: option.splits if_splits list.splits)
  have r': "length r' < length r3" using dw by (rule dropWhile_Cons_shorter)
  from alt show ?case
  proof
    assume a: "d = 0x2C \<and> parse_members (obj_put k v1 macc) r' = Some (v, r)"
    have "length r < length r'"
      using "3.IH"(2) d0 q pc d1 col pv g dw a by fastforce
    with r' g show ?thesis by simp
  next
    assume "d = 0x7D \<and> r = r'"
    with r' g show ?thesis by simp
  qed
qed

lemma parse_elements_unguarded:
  "parse_elements acc cs =
     (case parse_value cs of
        None \<Rightarrow> None
      | Some (v, r) \<Rightarrow>
          (case dropWhile is_ws r of
             [] \<Rightarrow> None
           | d # r' \<Rightarrow>
               if d = 0x2C then parse_elements (acc @ [v]) r'
               else if d = 0x5D then Some (JArray (acc @ [v]), r')
               else None))"
proof (cases "parse_value cs")
  case None
  then show ?thesis by (simp add: parse_elements.simps [of acc cs])
next
  case (Some p)
  obtain v r where p: "p = (v, r)" by (cases p)
  with Some have "length r < length cs" by (simp add: parse_shorter(1))
  with Some p show ?thesis by (simp add: parse_elements.simps [of acc cs])
qed

lemma parse_members_unguarded:
  "parse_members acc cs =
     (case dropWhile is_ws cs of
        [] \<Rightarrow> None
      | q # r \<Rightarrow>
          if q = 0x22 then
            (case parse_chars r of
               None \<Rightarrow> None
             | Some (k, r1) \<Rightarrow>
                 (case dropWhile is_ws r1 of
                    [] \<Rightarrow> None
                  | col # r2 \<Rightarrow>
                      if col = 0x3A then
                        (case parse_value r2 of
                           None \<Rightarrow> None
                         | Some (v, r3) \<Rightarrow>
                             (case dropWhile is_ws r3 of
                                [] \<Rightarrow> None
                              | d # r' \<Rightarrow>
                                  if d = 0x2C then parse_members (obj_put k v acc) r'
                                  else if d = 0x7D then Some (JObject (obj_put k v acc), r')
                                  else None))
                      else None))
          else None)"
proof (cases "dropWhile is_ws cs")
  case Nil
  show ?thesis
    by (simp add: parse_members.simps [of acc cs] Nil)
next
  case d0: (Cons q r)
  show ?thesis
  proof (cases "parse_chars r")
    case None
    show ?thesis
      by (simp add: parse_members.simps [of acc cs] d0 None)
  next
    case (Some p)
    obtain k r1 where p: "p = (k, r1)" by (cases p)
    note pc = Some [unfolded p]
    show ?thesis
    proof (cases "dropWhile is_ws r1")
      case Nil
      show ?thesis
        by (simp add: parse_members.simps [of acc cs] d0 pc Nil)
    next
      case d1: (Cons col r2)
      show ?thesis
      proof (cases "parse_value r2")
        case None
        show ?thesis
          by (simp add: parse_members.simps [of acc cs] d0 pc d1 None)
      next
        case (Some p')
        obtain v r3 where p': "p' = (v, r3)" by (cases p')
        note pv = Some [unfolded p']
        have g: "length r3 < length cs"
          using dropWhile_Cons_shorter [OF d0] parse_chars_shorter [OF pc]
            dropWhile_Cons_shorter [OF d1] parse_shorter(1) [OF pv]
          by simp
        show ?thesis
          by (simp add: parse_members.simps [of acc cs] d0 pc d1 pv g)
      qed
    qed
  qed
qed

subsection \<open>Reading back what \<open>QuoteJSONString\<close> wrote\<close>

lemma unat_word_of_nat_small: "m < 65536 \<Longrightarrow> unat (word_of_nat m :: jschar) = m"
  by (simp add: unat_of_nat)

lemma hexval_hexdigit: "n < 16 \<Longrightarrow> hexval (hexdigit n) = Some n"
proof (cases "n < 10")
  case True
  then have "unat (hexdigit n) = 48 + n"
    unfolding hexdigit_def by (simp only: if_True) (rule unat_word_of_nat_small, simp)
  then show ?thesis
    using True by (simp add: hexval_def word_le_nat_alt)
next
  case False
  assume "n < 16"
  then have "unat (hexdigit n) = 87 + n"
    unfolding hexdigit_def using False by (simp only: if_False) (rule unat_word_of_nat_small, simp)
  then show ?thesis
    using False \<open>n < 16\<close> by (simp add: hexval_def word_le_nat_alt)
qed

lemma hex_digits_value:
  "((u div 4096 * 16 + u div 256 mod 16) * 16 + u div 16 mod 16) * 16 + u mod 16 = (u::nat)"
proof -
  have a: "u div 4096 = u div 256 div 16" and b: "u div 256 = u div 16 div 16"
    by (simp_all add: div_mult2_eq [symmetric])
  have "u div 4096 * 16 + u div 256 mod 16 = u div 256"
    unfolding a by (rule div_mult_mod_eq)
  moreover have "u div 256 * 16 + u div 16 mod 16 = u div 16"
    unfolding b by (rule div_mult_mod_eq)
  moreover have "u div 16 * 16 + u mod 16 = u"
    by (rule div_mult_mod_eq)
  ultimately show ?thesis by simp
qed

lemma hex4_UnicodeEscape:
  "hex4 (hexdigit (unat c div 4096)) (hexdigit (unat c div 256 mod 16))
        (hexdigit (unat c div 16 mod 16)) (hexdigit (unat c mod 16)) = Some c"
proof -
  have "unat c < 65536" using unsigned_less [of c, where ?'a = nat] by simp
  then have "unat c div 4096 < 16" by simp
  then have "hex4 (hexdigit (unat c div 4096)) (hexdigit (unat c div 256 mod 16))
        (hexdigit (unat c div 16 mod 16)) (hexdigit (unat c mod 16))
      = Some (of_nat (((unat c div 4096 * 16 + unat c div 256 mod 16) * 16
          + unat c div 16 mod 16) * 16 + unat c mod 16))"
    by (simp add: hex4_def hexval_hexdigit del: of_nat_add of_nat_mult)
  then show ?thesis
    by (simp only: hex_digits_value of_nat_unat) simp
qed

lemma cons_result_Some [simp]: "cons_result u (Some (s, r)) = Some (u # s, r)"
  by (simp add: cons_result_def)

lemma parse_chars_UnicodeEscape:
  "parse_chars (UnicodeEscape c @ cs) = cons_result c (parse_chars cs)"
  by (simp add: UnicodeEscape_def hex4_UnicodeEscape)

lemma parse_chars_plain:
  "c \<noteq> 0x22 \<Longrightarrow> c \<noteq> 0x5C \<Longrightarrow> \<not> c < 0x20 \<Longrightarrow>
   parse_chars (c # cs) = cons_result c (parse_chars cs)"
  by simp

lemma parse_chars_short_escape:
  "parse_chars (0x5C # 0x62 # cs) = cons_result 0x08 (parse_chars cs)"
  "parse_chars (0x5C # 0x74 # cs) = cons_result 0x09 (parse_chars cs)"
  "parse_chars (0x5C # 0x6E # cs) = cons_result 0x0A (parse_chars cs)"
  "parse_chars (0x5C # 0x66 # cs) = cons_result 0x0C (parse_chars cs)"
  "parse_chars (0x5C # 0x72 # cs) = cons_result 0x0D (parse_chars cs)"
  "parse_chars (0x5C # 0x22 # cs) = cons_result 0x22 (parse_chars cs)"
  "parse_chars (0x5C # 0x5C # cs) = cons_result 0x5C (parse_chars cs)"
  by (simp_all add: unescape_def)

lemma parse_chars_end: "parse_chars (0x22 # cs) = Some ([], cs)"
  by simp

lemma surrogate_plain:
  "is_high_surrogate c \<or> is_low_surrogate c \<Longrightarrow>
   c \<noteq> 0x22 \<and> c \<noteq> 0x5C \<and> \<not> c < 0x20 \<and>
   c \<noteq> 0x08 \<and> c \<noteq> 0x09 \<and> c \<noteq> 0x0A \<and> c \<noteq> 0x0C \<and> c \<noteq> 0x0D"
  by (auto simp: is_high_surrogate_def is_low_surrogate_def word_le_nat_alt word_less_nat_alt)

lemma parse_chars_surrogate:
  "is_high_surrogate c \<or> is_low_surrogate c \<Longrightarrow>
   parse_chars (c # cs) = cons_result c (parse_chars cs)"
  using surrogate_plain [of c] by (simp add: parse_chars_plain)

lemma parse_chars_quote_chars:
  "parse_chars (quote_chars s @ 0x22 # rest) = Some (s, rest)"
proof (induction "length s" arbitrary: s rule: less_induct)
  case less
  note parse_chars.simps(2) [simp del]
  show ?case
  proof (cases s)
    case Nil
    then show ?thesis by (simp add: parse_chars_end)
  next
    case (Cons c cs)
    have tl: "parse_chars (quote_chars cs @ 0x22 # rest) = Some (cs, rest)"
      using less [of cs] Cons by simp
    show ?thesis
    proof (cases "is_high_surrogate c")
      case False
      then show ?thesis
        unfolding Cons
        by (simp add: tl parse_chars_UnicodeEscape parse_chars_surrogate
            parse_chars_short_escape parse_chars_plain)
    next
      case hi: True
      note plain = surrogate_plain [of c]
      show ?thesis
      proof (cases cs)
        case Nil
        then show ?thesis
          unfolding Cons using hi plain
          by (simp add: parse_chars_UnicodeEscape parse_chars_end)
      next
        case cs: (Cons d ds)
        have tl2: "parse_chars (quote_chars ds @ 0x22 # rest) = Some (ds, rest)"
          using less [of ds] Cons cs by simp
        show ?thesis
        proof (cases "is_low_surrogate d")
          case True
          then show ?thesis
            unfolding Cons cs using hi plain
            by (simp add: tl2 parse_chars_surrogate)
        next
          case False
          then show ?thesis
            using hi plain tl unfolding Cons cs
            by (simp add: parse_chars_UnicodeEscape)
        qed
      qed
    qed
  qed
qed

subsection \<open>Reading back a stored \<open>User\<close>\<close>

lemma not_ws_quote: "\<not> is_ws 0x22"
  by (simp add: is_ws_def)

lemma parse_value_QuoteJSONString:
  "parse_value (QuoteJSONString s @ rest) = Some (JString s, rest)"
  by (subst parse_value.simps)
     (simp add: QuoteJSONString_def not_ws_quote parse_chars_quote_chars)

lemma parse_chars_QuoteJSONString_tl:
  "parse_chars (tl (QuoteJSONString s) @ rest) = Some (s, rest)"
  by (simp add: QuoteJSONString_def parse_chars_quote_chars)

lemma parse_members_string_more:
  "parse_members acc (QuoteJSONString k @ 0x3A # QuoteJSONString s @ 0x2C # rest)
     = parse_members (obj_put k (JString s) acc) rest"
proof -
  have q: "QuoteJSONString k @ 0x3A # QuoteJSONString s @ 0x2C # rest
           = 0x22 # quote_chars k @ 0x22 # 0x3A # QuoteJSONString s @ 0x2C # rest"
    by (simp add: QuoteJSONString_def)
  show ?thesis
    unfolding q
    by (subst parse_members.simps)
       (simp add: not_ws_quote parse_chars_quote_chars is_ws_def parse_value_QuoteJSONString)
qed

lemma parse_members_string_last:
  "parse_members acc (QuoteJSONString k @ 0x3A # QuoteJSONString s @ 0x7D # rest)
     = Some (JObject (obj_put k (JString s) acc), rest)"
proof -
  have q: "QuoteJSONString k @ 0x3A # QuoteJSONString s @ 0x7D # rest
           = 0x22 # quote_chars k @ 0x22 # 0x3A # QuoteJSONString s @ 0x7D # rest"
    by (simp add: QuoteJSONString_def)
  show ?thesis
    unfolding q
    by (subst parse_members.simps)
       (simp add: not_ws_quote parse_chars_quote_chars is_ws_def parse_value_QuoteJSONString)
qed

lemma parse_value_object_start:
  "parse_value (0x7B # QuoteJSONString k @ rest) = parse_members [] (QuoteJSONString k @ rest)"
  by (subst parse_value.simps) (simp add: QuoteJSONString_def is_ws_def)

lemma JSON_stringify_User:
  "JSON_stringify (User i e n a) =
     0x7B # QuoteJSONString (js ''id'') @ 0x3A # QuoteJSONString i @
     0x2C # QuoteJSONString (js ''email'') @ 0x3A # QuoteJSONString e @
     0x2C # QuoteJSONString (js ''name'') @ 0x3A # QuoteJSONString n @
     0x2C # QuoteJSONString (js ''avatar'') @ 0x3A # QuoteJSONString a @ [0x7D]"
  by (simp add: User_def)

lemma JSON_parse_stringify_User:
  "JSON_parse (JSON_stringify (User i e n a)) = Some (User i e n a)"
proof -
  have keys: "obj_put (js ''avatar'') (JString a)
        (obj_put (js ''name'') (JString n)
          (obj_put (js ''email'') (JString e)
            (obj_put (js ''id'') (JString i) []))) = 
       [(js ''id'', JString i), (js ''email'', JString e), (js ''name'', JString n),
              (js ''avatar'', JString a)]"
    by (simp add: js_def)
  have "parse_value (JSON_stringify (User i e n a)) = Some (User i e n a, [])"
    unfolding JSON_stringify_User
    by (simp only: parse_value_object_start parse_members_string_more parse_members_string_last
        keys User_def)
  then show ?thesis
    by (simp add: JSON_parse_def)
qed

subsection \<open>The controller, step by step\<close>

lemma state_dispatch [simp]: "state (dispatch a w) = authReducer (state w) a"
  by (simp add: dispatch_def)

lemma localStorage_dispatch [simp]: "localStorage (dispatch a w) = localStorage w"
  by (simp add: dispatch_def)

lemma bootstrap_absent:
  "localStorage w AUTH_USER = None \<Longrightarrow> bootstrap w = dispatch LOGOUT w"
  by (simp add: bootstrap_def getItem_def)

lemma bootstrap_empty:
  "localStorage w AUTH_USER = Some [] \<Longrightarrow> bootstrap w = dispatch LOGOUT w"
  by (simp add: bootstrap_def getItem_def)

lemma bootstrap_parsed:
  "localStorage w AUTH_USER = Some text \<Longrightarrow> text \<noteq> [] \<Longrightarrow> JSON_parse text = Some v \<Longrightarrow>
   bootstrap w = dispatch (LOGIN_SUCCESS v) w"
  by (simp add: bootstrap_def getItem_def)

lemma bootstrap_unparsable:
  "localStorage w AUTH_USER = Some text \<Longrightarrow> text \<noteq> [] \<Longrightarrow> JSON_parse text = None \<Longrightarrow>
   bootstrap w = dispatch LOGOUT (w\<lparr>localStorage := (localStorage w)(AUTH_USER := None)\<rparr>)"
  by (simp add: bootstrap_def getItem_def removeItem_def)

lemma login_written:
  "\<not> quota_exceeded env \<Longrightarrow>
   login env email name w =
     dispatch (LOGIN_SUCCESS (new_user env email name))
       (dispatch LOGIN_START w
          \<lparr>localStorage := (localStorage w)(AUTH_USER \<mapsto> JSON_stringify (new_user env email name))\<rparr>)"
  by (simp add: login_def setItem_def Let_def)

lemma login_refused:
  "quota_exceeded env \<Longrightarrow>
   login env email name w = dispatch (LOGIN_FAILURE LOGIN_FAILED_MESSAGE) (dispatch LOGIN_START w)"
  by (simp add: login_def setItem_def Let_def)




lemma JSON_stringify_User_nonempty: "JSON_stringify (User i e n a) \<noteq> []"
  by (simp add: JSON_stringify_User)

lemma User_not_null: "User i e n a \<noteq> JNull"
  by (simp add: User_def)

subsection \<open>The authenticated state has a user\<close>

lemma exec_keeps_user:
  assumes auth: "isAuthenticated (state w) \<longrightarrow> user (state w) \<noteq> JNull"
    and store: "\<not> stores_null (localStorage w)"
  shows "(isAuthenticated (state (exec opr w)) \<longrightarrow> user (state (exec opr w)) \<noteq> JNull)
         \<and> \<not> stores_null (localStorage (exec opr w))"
proof (cases opr)
  case Bootstrap
  show ?thesis
  proof (cases "localStorage w AUTH_USER")
    case None
    with Bootstrap store show ?thesis by (simp add: bootstrap_absent)
  next
    case (Some saved)
    show ?thesis
    proof (cases "saved = []")
      case True
      with Bootstrap Some store show ?thesis by (simp add: bootstrap_empty)
    next
      case False
      show ?thesis
      proof (cases "JSON_parse saved")
        case None
        with Bootstrap Some False show ?thesis
          by (simp add: bootstrap_unparsable stores_null_def)
      next
        case (Some v)
        with store \<open>localStorage w AUTH_USER = Some saved\<close> have "v \<noteq> JNull"
          by (auto simp: stores_null_def)
        with Bootstrap Some False \<open>localStorage w AUTH_USER = Some saved\<close> store show ?thesis
          by (simp add: bootstrap_parsed)
      qed
    qed
  qed
next
  case (Login env email name)
  show ?thesis
  proof (cases "quota_exceeded env")
    case True
    with Login auth store show ?thesis by (simp add: login_refused)
  next
    case False
    with Login show ?thesis
      by (simp add: login_written new_user_def stores_null_def JSON_parse_stringify_User
          User_not_null)
  qed
next
  case Logout
  then show ?thesis by (simp add: logout_def removeItem_def stores_null_def)
qed

lemma run_keeps_user:
  "(isAuthenticated (state w) \<longrightarrow> user (state w) \<noteq> JNull) \<Longrightarrow>
   \<not> stores_null (localStorage w) \<Longrightarrow>
   (isAuthenticated (state (run ops w)) \<longrightarrow> user (state (run ops w)) \<noteq> JNull)
   \<and> \<not> stores_null (localStorage (run ops w))"
proof (induction ops arbitrary: w)
  case Nil
  then show ?case by simp
next
  case (Cons opr ops)
  from exec_keeps_user [OF Cons.prems, of opr]
  show ?case by (simp add: Cons.IH)
qed


subsection \<open>The reducer\<close>

text \<open>
  C4: the transition table of the reducer. For every state, \<open>LOGIN_START\<close> sets
  \<open>isLoading\<close> to true and \<open>error\<close> to null and keeps \<open>user\<close> and \<open>isAuthenticated\<close>;
  \<open>LOGIN_SUCCESS\<close> sets \<open>isLoading\<close> to false, \<open>isAuthenticated\<close> to true and \<open>user\<close>
  to the payload; \<open>LOGIN_FAILURE\<close> sets \<open>isLoading\<close> to false and \<open>error\<close> to the message
  and keeps \<open>isAuthenticated\<close> and \<open>user\<close>; \<open>LOGOUT\<close> sets \<open>isAuthenticated\<close> to false
  and \<open>user\<close> to null and keeps \<open>isLoading\<close> and \<open>error\<close>.
\<close>

theorem authReducer_transition_table:
  "authReducer s LOGIN_START = s\<lparr>isLoading := True, error := None\<rparr>
   \<and> user (authReducer s LOGIN_START) = user s
   \<and> isAuthenticated (authReducer s LOGIN_START) = isAuthenticated s
   \<and> isLoading (authReducer s LOGIN_START) = True
   \<and> error (authReducer s LOGIN_START) = None
   \<and> isLoading (authReducer s (LOGIN_SUCCESS identity)) = False
   \<and> isAuthenticated (authReducer s (LOGIN_SUCCESS identity)) = True
   \<and> user (authReducer s (LOGIN_SUCCESS identity)) = identity
   \<and> isLoading (authReducer s (LOGIN_FAILURE message)) = False
   \<and> error (authReducer s (LOGIN_FAILURE message)) = Some message
   \<and> isAuthenticated (authReducer s (LOGIN_FAILURE message)) = isAuthenticated s
   \<and> user (authReducer s (LOGIN_FAILURE message)) = user s
   \<and> isAuthenticated (authReducer s LOGOUT) = False
   \<and> user (authReducer s LOGOUT) = JNull
   \<and> isLoading (authReducer s LOGOUT) = isLoading s
   \<and> error (authReducer s LOGOUT) = error s"
  by simp

subsection \<open>The authenticated-only guard\<close>

text \<open>
  C8: the authenticated-only guard is a function of the session state alone. While
  \<open>isLoading\<close> is true it renders the waiting indicator, whatever \<open>isAuthenticated\<close> is;
  with \<open>isLoading\<close> false and \<open>isAuthenticated\<close> false it returns the redirect to
  \<open>/login\<close>; with \<open>isLoading\<close> false and \<open>isAuthenticated\<close> true it renders the
  protected content.
\<close>

theorem ProtectedRoute_decision:
  "ProtectedRoute (s\<lparr>isLoading := True\<rparr>) = Spinner
   \<and> ProtectedRoute (s\<lparr>isLoading := False, isAuthenticated := False\<rparr>)
       = Navigate (js ''/login'') True
   \<and> ProtectedRoute (s\<lparr>isLoading := False, isAuthenticated := True\<rparr>) = Children"
  by (simp add: ProtectedRoute_def)

subsection \<open>Bootstrap, login and logout\<close>

text \<open>Three store contents used below, read by \<open>JSON.parse\<close>.\<close>

lemma parse_null: "JSON_parse (js ''null'') = Some JNull"
  by code_simp

lemma parse_empty_object: "JSON_parse (js ''{}'') = Some (JObject [])"
  by code_simp

lemma parse_garbage: "JSON_parse (js ''{bad'') = None"
  by code_simp

lemma js_nonempty_literals: "js ''null'' \<noteq> []" "js ''{}'' \<noteq> []" "js ''{bad'' \<noteq> []"
  by (simp_all add: js_def)

lemma bootstrap_resolves_loading:
  "isLoading (state (bootstrap (start ls)))
     = (case ls AUTH_USER of
          None \<Rightarrow> True
        | Some saved \<Rightarrow> saved = [] \<or> JSON_parse saved = None)"
  by (simp add: bootstrap_def getItem_def start_def initialState_def split: option.split)

text \<open>
  C1: one call of \<open>bootstrap\<close> at process start must leave \<open>isLoading\<close> false, whatever
  the store holds. The code does not do this. The initial state has \<open>isLoading\<close> true; with
  no record in the store, with a record that is not JSON and with the empty string,
  \<open>bootstrap\<close> dispatches \<open>LOGOUT\<close>, and the \<open>LOGOUT\<close> branch of the reducer keeps
  \<open>isLoading\<close>. The theorem evaluates \<open>bootstrap\<close> at the three store contents:
  \<open>isLoading\<close> is still true afterwards. (\<open>bootstrap_resolves_loading\<close> says for which
  contents it ends false: those that \<open>JSON.parse\<close> accepts.)
\<close>

theorem bootstrap_keeps_loading:
  "isLoading (state (bootstrap (start Map.empty)))
   \<and> isLoading (state (bootstrap (start [AUTH_USER \<mapsto> js ''{bad''])))
   \<and> isLoading (state (bootstrap (start [AUTH_USER \<mapsto> []])))"
  by (simp add: bootstrap_absent bootstrap_empty bootstrap_unparsable parse_garbage
      js_nonempty_literals start_def initialState_def)

text \<open>
  C2, as stated, fails: with the four characters \<open>null\<close> in the store, \<open>bootstrap\<close>
  dispatches \<open>LOGIN_SUCCESS\<close> with the payload \<open>null\<close>, and the state is authenticated with
  no user.
\<close>

theorem authenticated_null_user_counterexample:
  "isAuthenticated (state (run [Bootstrap] (start [AUTH_USER \<mapsto> js ''null''])))
   \<and> user (state (run [Bootstrap] (start [AUTH_USER \<mapsto> js ''null'']))) = JNull"
  by (simp add: bootstrap_parsed [OF _ js_nonempty_literals(1) parse_null] start_def)

text \<open>
  C2 (amended): in every state reached from the initial state by any sequence of
  \<open>bootstrap\<close>, \<open>login\<close> and \<open>logout\<close>, if \<open>isAuthenticated\<close> is true then \<open>user\<close> is not
  null, provided the store the process starts with does not hold a JSON text for \<open>null\<close>
  (it may hold no record, the empty string, a text that is not JSON, or any other JSON
  value).
\<close>

theorem authenticated_has_user:
  "\<not> stores_null ls \<Longrightarrow> isAuthenticated (state (run ops (start ls))) \<Longrightarrow>
   user (state (run ops (start ls))) \<noteq> JNull"
  using run_keeps_user [of "start ls" ops] by (simp add: start_def initialState_def)

text \<open>A run that satisfies both hypotheses: first visit, then a login that is stored.\<close>

theorem authenticated_has_user_witness:
  "\<not> stores_null Map.empty
   \<and> isAuthenticated (state (run [Bootstrap, Login \<lparr>random36 = js ''0.4fzyo82mvyr'', quota_exceeded = False\<rparr> (js ''a@b.com'') (js ''a'')] (start Map.empty)))
   \<and> user (state (run [Bootstrap, Login \<lparr>random36 = js ''0.4fzyo82mvyr'', quota_exceeded = False\<rparr> (js ''a@b.com'') (js ''a'')] (start Map.empty))) \<noteq> JNull"
proof -
  have h1: "\<not> stores_null Map.empty" by (simp add: stores_null_def)
  have h2: "isAuthenticated (state (run [Bootstrap, Login \<lparr>random36 = js ''0.4fzyo82mvyr'', quota_exceeded = False\<rparr> (js ''a@b.com'') (js ''a'')] (start Map.empty)))"
    by (simp add: login_written)
  from authenticated_has_user [OF h1 h2] h1 h2 show ?thesis by simp
qed

text \<open>
  C3, as stated, fails twice. The record \<open>{}\<close> is JSON that does not have the shape of
  \<open>User\<close>; \<open>bootstrap\<close> takes it as the identity (the state is authenticated, the user is
  the empty object) and leaves it in the store. The empty string is not JSON; \<open>bootstrap\<close>
  logs out and leaves it in the store, since \<open>if (savedUser)\<close> is false for it and the
  \<open>catch\<close> branch that removes the record is not reached.
\<close>

theorem bootstrap_corruption_counterexample:
  "JSON_parse (js ''{}'') = Some (JObject [])
   \<and> \<not> matches_User (JObject [])
   \<and> isAuthenticated (state (bootstrap (start [AUTH_USER \<mapsto> js ''{}''])))
   \<and> user (state (bootstrap (start [AUTH_USER \<mapsto> js ''{}'']))) = JObject []
   \<and> localStorage (bootstrap (start [AUTH_USER \<mapsto> js ''{}''])) AUTH_USER = Some (js ''{}'')
   \<and> JSON_parse [] = None
   \<and> localStorage (bootstrap (start [AUTH_USER \<mapsto> []])) AUTH_USER = Some []"
proof -
  have a: "bootstrap (start [AUTH_USER \<mapsto> js ''{}''])
           = dispatch (LOGIN_SUCCESS (JObject [])) (start [AUTH_USER \<mapsto> js ''{}''])"
    by (rule bootstrap_parsed [OF _ js_nonempty_literals(2) parse_empty_object])
       (simp add: start_def)
  have b: "bootstrap (start [AUTH_USER \<mapsto> []]) = dispatch LOGOUT (start [AUTH_USER \<mapsto> []])"
    by (rule bootstrap_empty) (simp add: start_def)
  have c: "JSON_parse [] = None"
    by code_simp
  show ?thesis
    unfolding a b by (simp add: parse_empty_object c matches_User_def is_string_def start_def)
qed

text \<open>
  C3 (amended): for every store content that is a non-empty string and not JSON,
  \<open>bootstrap\<close> at process start yields a state with \<open>isAuthenticated\<close> false and \<open>user\<close>
  null, and removes the record from the store.
\<close>

theorem bootstrap_purges_unparsable:
  "saved \<noteq> [] \<Longrightarrow> JSON_parse saved = None \<Longrightarrow> ls AUTH_USER = Some saved \<Longrightarrow>
   isAuthenticated (state (bootstrap (start ls))) = False
   \<and> user (state (bootstrap (start ls))) = JNull
   \<and> localStorage (bootstrap (start ls)) AUTH_USER = None"
  by (simp add: bootstrap_unparsable start_def)

text \<open>The record \<open>{bad\<close> is such a content.\<close>

theorem bootstrap_purges_unparsable_witness:
  "js ''{bad'' \<noteq> [] \<and> JSON_parse (js ''{bad'') = None
   \<and> [AUTH_USER \<mapsto> js ''{bad''] AUTH_USER = Some (js ''{bad'')
   \<and> isAuthenticated (state (bootstrap (start [AUTH_USER \<mapsto> js ''{bad'']))) = False
   \<and> user (state (bootstrap (start [AUTH_USER \<mapsto> js ''{bad'']))) = JNull
   \<and> localStorage (bootstrap (start [AUTH_USER \<mapsto> js ''{bad''])) AUTH_USER = None"
proof -
  have h: "[AUTH_USER \<mapsto> js ''{bad''] AUTH_USER = Some (js ''{bad'')" by simp
  from bootstrap_purges_unparsable [of "js ''{bad''" "[AUTH_USER \<mapsto> js ''{bad'']"]
  show ?thesis
    using js_nonempty_literals(3) parse_garbage h by simp
qed



lemma logout_logged_out:
  assumes "\<not> isAuthenticated (state w)" "user (state w) = JNull" "localStorage w AUTH_USER = None"
  shows "logout w = w"
proof -
  have st: "(state w)\<lparr>isAuthenticated := False, user := JNull\<rparr> = state w"
    using assms by (intro AuthState.equality) simp_all
  have ls: "(localStorage w)(AUTH_USER := None) = localStorage w"
    using assms by (simp add: fun_upd_idem)
  show ?thesis
    by (rule world.equality) (simp_all add: logout_def removeItem_def st ls)
qed

text \<open>
  C6: \<open>logout\<close> is idempotent. For every state and store, \<open>logout\<close> twice gives the
  state and the store that \<open>logout\<close> once gives; and where the session is already logged
  out (not authenticated, no user, no record in the store) \<open>logout\<close> changes nothing.
\<close>

theorem logout_idempotent:
  "logout (logout w) = logout w
   \<and> (\<not> isAuthenticated (state w) \<and> user (state w) = JNull \<and> localStorage w AUTH_USER = None
        \<longrightarrow> logout w = w)"
  using logout_logged_out [of w] by (simp add: logout_def dispatch_def removeItem_def)

text \<open>The state after \<open>bootstrap\<close> on first visit is logged out, and \<open>logout\<close> keeps it.\<close>

theorem logout_idempotent_witness:
  "\<not> isAuthenticated (state (bootstrap (start Map.empty)))
   \<and> user (state (bootstrap (start Map.empty))) = JNull
   \<and> localStorage (bootstrap (start Map.empty)) AUTH_USER = None
   \<and> logout (bootstrap (start Map.empty)) = bootstrap (start Map.empty)"
  using logout_idempotent [of "bootstrap (start Map.empty)"]
  by (simp add: bootstrap_absent start_def initialState_def)

text \<open>
  C7: round trip through the store. For every email and name, after a \<open>login\<close> whose
  write to the store succeeded, a fresh \<open>bootstrap\<close> (the initial state, the store as
  \<open>login\<close> left it) yields an authenticated state whose user is the user that \<open>login\<close>
  produced: the identifier taken from the random text, the email, the name and the avatar
  address built from the name.
\<close>

theorem login_bootstrap_roundtrip:
  "\<not> quota_exceeded env \<Longrightarrow>
   isAuthenticated (state (bootstrap (start (localStorage (login env email name w)))))
   \<and> user (state (bootstrap (start (localStorage (login env email name w)))))
       = user (state (login env email name w))
   \<and> user (state (login env email name w))
       = User (substr 2 9 (random36 env)) email name
           (js ''https://api.dicebear.com/7.x/avataaars/svg?seed='' @ name)"
proof -
  assume ok: "\<not> quota_exceeded env"
  let ?u = "new_user env email name"
  have st: "localStorage (login env email name w) AUTH_USER = Some (JSON_stringify ?u)"
    using ok by (simp add: login_written)
  have ne: "JSON_stringify ?u \<noteq> []"
    by (simp add: new_user_def JSON_stringify_User_nonempty)
  have p: "JSON_parse (JSON_stringify ?u) = Some ?u"
    by (simp add: new_user_def JSON_parse_stringify_User)
  have "bootstrap (start (localStorage (login env email name w)))
        = dispatch (LOGIN_SUCCESS ?u) (start (localStorage (login env email name w)))"
    by (rule bootstrap_parsed [OF _ ne p]) (simp add: start_def st)
  then show ?thesis
    using ok by (simp add: login_written new_user_def)
qed

text \<open>The scenario of the spec: \<open>login("a@b.com", "a")\<close>, then a restart.\<close>

theorem login_bootstrap_roundtrip_witness:
  "\<not> quota_exceeded \<lparr>random36 = js ''0.4fzyo82mvyr'', quota_exceeded = False\<rparr>
   \<and> isAuthenticated (state (bootstrap (start (localStorage
        (login \<lparr>random36 = js ''0.4fzyo82mvyr'', quota_exceeded = False\<rparr> (js ''a@b.com'') (js ''a'')
           (bootstrap (start Map.empty)))))))
   \<and> user (state (bootstrap (start (localStorage
        (login \<lparr>random36 = js ''0.4fzyo82mvyr'', quota_exceeded = False\<rparr> (js ''a@b.com'') (js ''a'')
           (bootstrap (start Map.empty)))))))
      = User (js ''4fzyo82mv'') (js ''a@b.com'') (js ''a'')
          (js ''https://api.dicebear.com/7.x/avataaars/svg?seed=a'')"
  using login_bootstrap_roundtrip [of "\<lparr>random36 = js ''0.4fzyo82mvyr'', quota_exceeded = False\<rparr>"
      "js ''a@b.com''" "js ''a''" "bootstrap (start Map.empty)"]
  by (simp add: substr_def js_def)

text \<open>
  C9: on the failure path of \<open>login\<close> the controller dispatches \<open>LOGIN_FAILURE\<close> with the
  fixed message and does not touch the store. The statement of the \<open>try\<close> block that can
  throw is the write to the store, which then leaves the store as it was: for every
  \<open>login\<close> whose write is refused, the result is \<open>LOGIN_START\<close> followed by
  \<open>LOGIN_FAILURE\<close> with the fixed message (\<open>isLoading\<close> false, \<open>error\<close> the message, the
  other fields as before), and the store is unchanged.
\<close>

theorem login_failure_keeps_store:
  "quota_exceeded env \<Longrightarrow>
   login env email name w = dispatch (LOGIN_FAILURE LOGIN_FAILED_MESSAGE) (dispatch LOGIN_START w)
   \<and> state (login env email name w)
       = (state w)\<lparr>isLoading := False, error := Some LOGIN_FAILED_MESSAGE\<rparr>
   \<and> localStorage (login env email name w) = localStorage w"
  by (simp add: login_refused)

text \<open>A refused write on first visit.\<close>

theorem login_failure_keeps_store_witness:
  "quota_exceeded \<lparr>random36 = js ''0.4fzyo82mvyr'', quota_exceeded = True\<rparr>
   \<and> state (login \<lparr>random36 = js ''0.4fzyo82mvyr'', quota_exceeded = True\<rparr> (js ''a@b.com'') (js ''a'')
        (start Map.empty))
       = \<lparr>user = JNull, isAuthenticated = False, isLoading = False,
          error = Some LOGIN_FAILED_MESSAGE\<rparr>
   \<and> localStorage (login \<lparr>random36 = js ''0.4fzyo82mvyr'', quota_exceeded = True\<rparr> (js ''a@b.com'') (js ''a'')
        (start Map.empty)) = Map.empty"
  using login_failure_keeps_store [of "\<lparr>random36 = js ''0.4fzyo82mvyr'', quota_exceeded = True\<rparr>"
      "js ''a@b.com''" "js ''a''" "start Map.empty"]
  by (simp add: start_def initialState_def)




end
